theory Spec2Isabelle
  imports Main "HOL-Library.Sublist" "HOL-Library.List_Lexorder" "HOL-Library.Char_ord"
begin

section \<open>JavaScript library functions used by the portfolio code\<close>

text \<open>
  Strings are modelled as lists of 8-bit characters, read as ASCII code units. The library
  functions below are the ASCII fragments of \<^verbatim>\<open>String.prototype.toLowerCase\<close>,
  \<^verbatim>\<open>String.prototype.trim\<close> and \<^verbatim>\<open>String.prototype.includes\<close>: characters
  outside ASCII are neither letters nor white space here.
\<close>

definition toLowerCase_char :: "char \<Rightarrow> char" where
  "toLowerCase_char c =
     (case map_of (zip ''ABCDEFGHIJKLMNOPQRSTUVWXYZ'' ''abcdefghijklmnopqrstuvwxyz'') c of
        None \<Rightarrow> c
      | Some l \<Rightarrow> l)"

definition toLowerCase :: "string \<Rightarrow> string" where
  "toLowerCase s = map toLowerCase_char s"

text \<open>Tab, line feed, vertical tab, form feed, carriage return and space.\<close>

definition is_white_space :: "char \<Rightarrow> bool" where
  "is_white_space c = (c \<in> set [CHR 0x09, CHR 0x0A, CHR 0x0B, CHR 0x0C, CHR 0x0D, CHR '' ''])"

definition trimStart :: "string \<Rightarrow> string" where
  "trimStart s = dropWhile is_white_space s"

definition trimEnd :: "string \<Rightarrow> string" where
  "trimEnd s = rev (dropWhile is_white_space (rev s))"

definition trim :: "string \<Rightarrow> string" where
  "trim s = trimEnd (trimStart s)"

text \<open>\<^verbatim>\<open>s.includes(q)\<close>: \<open>q\<close> occurs in \<open>s\<close> as a contiguous substring.\<close>

fun includes_str :: "string \<Rightarrow> string \<Rightarrow> bool" where
  "includes_str [] q = (q = [])"
| "includes_str (c # cs) q = (prefix q (c # cs) \<or> includes_str cs q)"

text \<open>
  \<^verbatim>\<open>Array.from(new Set(xs))\<close>: a set keeps its elements in insertion order, and adding
  an element that is already present changes nothing.
\<close>

definition Set_add :: "'a list \<Rightarrow> 'a \<Rightarrow> 'a list" where
  "Set_add s x = (if x \<in> set s then s else s @ [x])"

definition new_Set :: "'a list \<Rightarrow> 'a list" where
  "new_Set xs = fold (\<lambda>x s. Set_add s x) xs []"

section \<open>Data model (types/github.ts)\<close>

record GitHubRepo =
  repo_id :: int
  name :: string
  html_url :: string
  description :: "string option"
  stargazers_count :: int
  forks_count :: int
  language :: "string option"
  homepage :: "string option"
  topics :: "string list option"
  updated_at :: string
  archived :: bool
  fork :: bool

record RepositoryWithTags = GitHubRepo +
  allTags :: "string list"
  docsUrl :: "string option"

section \<open>Record normaliser (hooks/useGitHubRepos.ts)\<close>

text \<open>
  The spread \<^verbatim>\<open>...repo\<close> copies every field of the argument; \<open>allTags\<close> and
  \<open>docsUrl\<close> are then set, replacing any the argument had.
\<close>

definition normalise :: "'a GitHubRepo_scheme \<Rightarrow> RepositoryWithTags" where
  "normalise repo =
     (let repoTopics = (case topics repo of None \<Rightarrow> [] | Some ts \<Rightarrow> ts);
          normalisedTopics = map toLowerCase repoTopics;
          homepage = (case homepage repo of Some h \<Rightarrow> trim h | None \<Rightarrow> '''');
          docsUrl = (if length homepage > 0 then homepage else html_url repo @ ''#readme'')
      in \<lparr> repo_id = repo_id repo, name = name repo, html_url = html_url repo,
           description = description repo, stargazers_count = stargazers_count repo,
           forks_count = forks_count repo, language = language repo,
           homepage = GitHubRepo.homepage repo, topics = topics repo,
           updated_at = updated_at repo, archived = archived repo, fork = fork repo,
           allTags = new_Set normalisedTopics, docsUrl = Some docsUrl \<rparr>)"

section \<open>Filter engine (App.tsx)\<close>

text \<open>
  The callback of \<^verbatim>\<open>repositories.filter\<close> inside \<open>filteredRepositories\<close>. The
  condition \<^verbatim>\<open>activeTag ? ... : true\<close> is a truthiness test on a \<^verbatim>\<open>string | null\<close>:
  both \<^verbatim>\<open>null\<close> and the empty string take the \<^verbatim>\<open>true\<close> branch.
\<close>

definition repo_visible :: "string option \<Rightarrow> string \<Rightarrow> RepositoryWithTags \<Rightarrow> bool" where
  "repo_visible activeTag searchTerm repo =
     (let matchesTag =
        (case activeTag of
           None \<Rightarrow> True
         | Some t \<Rightarrow> if t \<noteq> [] then t \<in> set (allTags repo) else True)
      in if \<not> matchesTag then False
         else if length (trim searchTerm) = 0 then True
         else
           (let query = toLowerCase searchTerm
            in includes_str (toLowerCase (name repo)) query \<or>
               includes_str
                 (toLowerCase (case description repo of None \<Rightarrow> '''' | Some d \<Rightarrow> d)) query \<or>
               list_ex (\<lambda>tag. includes_str tag query) (allTags repo)))"

definition filteredRepositories ::
  "RepositoryWithTags list \<Rightarrow> string option \<Rightarrow> string \<Rightarrow> RepositoryWithTags list" where
  "filteredRepositories collection activeTag searchTerm =
     filter (repo_visible activeTag searchTerm) collection"



section \<open>Pagination fetcher (hooks/useGitHubRepos.ts)\<close>

text \<open>
  A thrown value is an \<^verbatim>\<open>Error\<close> object carrying its message, or some other value.
\<close>

datatype thrown = Error string | NonError

text \<open>
  What the code reads from a response: the \<open>ok\<close> flag, the status, the two rate-limit
  headers as \<^verbatim>\<open>headers.get\<close> returns them (\<open>None\<close> for \<^verbatim>\<open>null\<close>), and the outcome of
  \<^verbatim>\<open>response.json()\<close>.
\<close>

record Response =
  ok :: bool
  status :: nat
  x_ratelimit_remaining :: "string option"
  x_ratelimit_reset :: "string option"
  json :: "thrown + GitHubRepo list"


text \<open>The promise returned by \<^verbatim>\<open>fetch\<close> either rejects or resolves with a response.\<close>

datatype fetch_result = Rejects thrown | Resolves Response

text \<open>
  The network, as the hook sees it: the outcome of the request for a user name and a page
  number (the other parts of the URL and the headers are constant).
\<close>

type_synonym fetch_env = "string \<Rightarrow> nat \<Rightarrow> fetch_result"

definition PER_PAGE :: nat where
  "PER_PAGE = 100"

text \<open>A number in a template literal: its decimal digits.\<close>

definition digit_char :: "nat \<Rightarrow> char" where
  "digit_char d = ''0123456789'' ! d"

fun Number_toString :: "nat \<Rightarrow> string" where
  "Number_toString n =
     (if n < 10 then [digit_char n]
      else Number_toString (n div 10) @ [digit_char (n mod 10)])"

declare Number_toString.simps [simp del]

text \<open>
  The message of the error thrown by \<open>fetchPage\<close> for a response that is not ok. The
  condition \<^verbatim>\<open>rateLimitRemaining ? ... : undefined\<close> is a truthiness test: a missing header
  and an empty header value both give \<^verbatim>\<open>undefined\<close>; a missing reset header is printed as
  \<^verbatim>\<open>null\<close>.
\<close>

definition failure_message :: "Response \<Rightarrow> string" where
  "failure_message response =
     (let rateLimitRemaining = x_ratelimit_remaining response;
          rateLimitReset = x_ratelimit_reset response;
          rateInfo =
            (case rateLimitRemaining of
               None \<Rightarrow> None
             | Some r \<Rightarrow>
                 if r \<noteq> [] then
                   Some (''Rate limit remaining: '' @ r @ ''. Resets at: '' @
                         (case rateLimitReset of None \<Rightarrow> ''null'' | Some t \<Rightarrow> t))
                 else None)
      in trim (''Failed to fetch repositories (status '' @ Number_toString (status response) @
               ''). '' @ (case rateInfo of None \<Rightarrow> '''' | Some info \<Rightarrow> info)))"

definition fetchPage :: "fetch_env \<Rightarrow> string \<Rightarrow> nat \<Rightarrow> thrown + GitHubRepo list" where
  "fetchPage fetch username page =
     (case fetch username page of
        Rejects e \<Rightarrow> Inl e
      | Resolves response \<Rightarrow>
          if \<not> ok response then Inl (Error (failure_message response))
          else json response)"

text \<open>
  The \<^verbatim>\<open>while (true)\<close> loop of \<open>loadRepositories\<close>, with the list of page numbers requested
  so far. It need not terminate: a server whose every page is full never lets it leave.
  A throwing \<open>fetchPage\<close> leaves the loop for the \<^verbatim>\<open>catch\<close> block.
\<close>

partial_function (option) fetch_loop ::
  "fetch_env \<Rightarrow> string \<Rightarrow> nat \<Rightarrow> GitHubRepo list \<Rightarrow> nat list \<Rightarrow>
     ((thrown + GitHubRepo list) \<times> nat list) option" where
  "fetch_loop fetch username page aggregated requested =
     (case fetchPage fetch username page of
        Inl err \<Rightarrow> Some (Inl err, requested @ [page])
      | Inr pageData \<Rightarrow>
          if length pageData < PER_PAGE
          then Some (Inr (aggregated @ pageData), requested @ [page])
          else fetch_loop fetch username (page + 1) (aggregated @ pageData)
                 (requested @ [page]))"

definition fetch_all ::
  "fetch_env \<Rightarrow> string \<Rightarrow> ((thrown + GitHubRepo list) \<times> nat list) option" where
  "fetch_all fetch username = fetch_loop fetch username 1 [] []"

text \<open>
  \<open>serves fetch username page ps\<close>: the pages \<open>page\<close>, \<open>page + 1\<close>, ... of the user's
  listing are fetched successfully and are the lists \<open>ps\<close>, in this order.
\<close>

fun serves :: "fetch_env \<Rightarrow> string \<Rightarrow> nat \<Rightarrow> GitHubRepo list list \<Rightarrow> bool" where
  "serves fetch username page [] = True"
| "serves fetch username page (p # ps) =
     (fetchPage fetch username page = Inr p \<and> serves fetch username (page + 1) ps)"

section \<open>Repository store (hooks/useGitHubRepos.ts)\<close>

text \<open>
  \<^verbatim>\<open>Array.prototype.sort\<close> with a comparator. A comparator result is a number, \<open>None\<close>
  standing for \<^verbatim>\<open>NaN\<close>, which the sort reads as \<open>0\<close>. The sort is stable; it is modelled
  by a stable insertion sort, which for a consistent comparator computes the one result
  the language allows.
\<close>

definition SortCompare :: "('a \<Rightarrow> 'a \<Rightarrow> int option) \<Rightarrow> 'a \<Rightarrow> 'a \<Rightarrow> int" where
  "SortCompare comparefn x y = (case comparefn x y of None \<Rightarrow> 0 | Some v \<Rightarrow> v)"

fun sort_insert :: "('a \<Rightarrow> 'a \<Rightarrow> int option) \<Rightarrow> 'a \<Rightarrow> 'a list \<Rightarrow> 'a list" where
  "sort_insert comparefn x [] = [x]"
| "sort_insert comparefn x (y # ys) =
     (if SortCompare comparefn x y \<le> 0 then x # y # ys
      else y # sort_insert comparefn x ys)"

definition Array_sort :: "('a \<Rightarrow> 'a \<Rightarrow> int option) \<Rightarrow> 'a list \<Rightarrow> 'a list" where
  "Array_sort comparefn xs = foldr (sort_insert comparefn) xs []"

text \<open>
  The comparator of the hook,
  \<^verbatim>\<open>new Date(b.updated_at).getTime() - new Date(a.updated_at).getTime()\<close>. The parameter
  \<open>getTime\<close> is the library's reading of a date string as milliseconds, \<open>None\<close> where the
  string is no date and the result is \<^verbatim>\<open>NaN\<close>.
\<close>

definition compare_updated ::
  "(string \<Rightarrow> int option) \<Rightarrow> RepositoryWithTags \<Rightarrow> RepositoryWithTags \<Rightarrow> int option" where
  "compare_updated getTime a b =
     (case (getTime (updated_at b), getTime (updated_at a)) of
        (Some tb, Some ta) \<Rightarrow> Some (tb - ta)
      | _ \<Rightarrow> None)"

text \<open>The callback of \<^verbatim>\<open>aggregated.filter\<close>.\<close>

definition included :: "bool \<Rightarrow> bool \<Rightarrow> GitHubRepo \<Rightarrow> bool" where
  "included includeForks includeArchived repo =
     (if \<not> includeForks \<and> fork repo then False
      else if \<not> includeArchived \<and> archived repo then False
      else True)"

text \<open>The three state variables of the hook.\<close>

record HookState =
  repositories :: "RepositoryWithTags list"
  isLoading :: bool
  error :: "string option"

text \<open>
  \<open>loadRepositories\<close> in three parts: the two writes before the loop; the loop
  (\<open>fetch_all\<close>); and what happens once the loop has ended, which is the rest of the
  \<^verbatim>\<open>try\<close> block, the \<^verbatim>\<open>catch\<close> block and the \<^verbatim>\<open>finally\<close> block. The flag
  \<open>cancelled\<close> is the value of the closure variable at that moment; the effect's clean-up
  function sets it when the options change or the component unmounts.
\<close>

definition load_begin :: "HookState \<Rightarrow> HookState" where
  "load_begin st = st\<lparr>isLoading := True, error := None\<rparr>"

definition try_rest ::
  "(string \<Rightarrow> int option) \<Rightarrow> bool \<Rightarrow> bool \<Rightarrow> bool \<Rightarrow> GitHubRepo list \<Rightarrow> HookState \<Rightarrow>
     HookState" where
  "try_rest getTime includeForks includeArchived cancelled aggregated st =
     (if cancelled then st
      else
        (let filtered = filter (included includeForks includeArchived) aggregated;
             normalised = Array_sort (compare_updated getTime) (map normalise filtered)
         in st\<lparr>repositories := normalised\<rparr>))"

definition catch_block :: "bool \<Rightarrow> thrown \<Rightarrow> HookState \<Rightarrow> HookState" where
  "catch_block cancelled err st =
     (if \<not> cancelled then
        (let message = (case err of Error m \<Rightarrow> m | NonError \<Rightarrow> ''Unknown error'')
         in st\<lparr>error := Some message\<rparr>)
      else st)"

definition finally_block :: "bool \<Rightarrow> HookState \<Rightarrow> HookState" where
  "finally_block cancelled st = (if \<not> cancelled then st\<lparr>isLoading := False\<rparr> else st)"

definition load_settle ::
  "(string \<Rightarrow> int option) \<Rightarrow> bool \<Rightarrow> bool \<Rightarrow> bool \<Rightarrow> thrown + GitHubRepo list \<Rightarrow>
     HookState \<Rightarrow> HookState" where
  "load_settle getTime includeForks includeArchived cancelled outcome st =
     finally_block cancelled
       (case outcome of
          Inr aggregated \<Rightarrow> try_rest getTime includeForks includeArchived cancelled aggregated st
        | Inl err \<Rightarrow> catch_block cancelled err st)"

text \<open>
  A whole cycle: the final state and the pages requested, or \<open>None\<close> when the loop
  never ends.
\<close>

definition loadRepositories ::
  "fetch_env \<Rightarrow> (string \<Rightarrow> int option) \<Rightarrow> string \<Rightarrow> bool \<Rightarrow> bool \<Rightarrow> bool \<Rightarrow> HookState \<Rightarrow>
     (HookState \<times> nat list) option" where
  "loadRepositories fetch getTime username includeForks includeArchived cancelled st =
     (case fetch_all fetch username of
        None \<Rightarrow> None
      | Some (outcome, requested) \<Rightarrow>
          Some (load_settle getTime includeForks includeArchived cancelled outcome
                  (load_begin st), requested))"

section \<open>Tag aggregator (App.tsx)\<close>

record TagMeta =
  label :: string
  count :: nat

text \<open>
  A \<^verbatim>\<open>Map\<close> as the list of its entries in insertion order: setting a key that is
  present replaces its value in place, a new key goes to the end.
\<close>

fun Map_set :: "('k \<times> 'v) list \<Rightarrow> 'k \<Rightarrow> 'v \<Rightarrow> ('k \<times> 'v) list" where
  "Map_set [] k v = [(k, v)]"
| "Map_set ((k', v') # entries) k v =
     (if k' = k then (k, v) # entries else (k', v') # Map_set entries k v)"

definition Map_get :: "('k \<times> 'v) list \<Rightarrow> 'k \<Rightarrow> 'v option" where
  "Map_get entries k = map_of entries k"

text \<open>The body of the inner \<^verbatim>\<open>forEach\<close>, the two nested loops, and the \<open>tags\<close> memo.\<close>

definition count_tag :: "(string \<times> nat) list \<Rightarrow> string \<Rightarrow> (string \<times> nat) list" where
  "count_tag counts tag =
     (let normalised = toLowerCase tag
      in Map_set counts normalised
           ((case Map_get counts normalised of None \<Rightarrow> 0 | Some n \<Rightarrow> n) + 1))"

definition tag_counts :: "RepositoryWithTags list \<Rightarrow> (string \<times> nat) list" where
  "tag_counts collection =
     fold (\<lambda>repo counts. fold (\<lambda>tag c. count_tag c tag) (allTags repo) counts) collection []"

text \<open>
  The parameter \<open>localeCompare\<close> is \<^verbatim>\<open>String.prototype.localeCompare\<close> of the host, whose
  collation is not part of the repository.
\<close>

definition tags :: "(string \<Rightarrow> string \<Rightarrow> int) \<Rightarrow> RepositoryWithTags list \<Rightarrow> TagMeta list" where
  "tags localeCompare collection =
     Array_sort (\<lambda>a b. Some (localeCompare (label a) (label b)))
       (map (\<lambda>(l, c). \<lparr>label = l, count = c\<rparr>) (tag_counts collection))"

text \<open>The count stored for a label, \<open>0\<close> when the label has no entry.\<close>

definition count_of :: "(string \<times> nat) list \<Rightarrow> string \<Rightarrow> nat" where
  "count_of counts l = (case Map_get counts l of None \<Rightarrow> 0 | Some n \<Rightarrow> n)"

section \<open>Tag filter (components/TagFilter.tsx)\<close>




section \<open>Example data\<close>

definition example_repo :: GitHubRepo where
  "example_repo =
     \<lparr> repo_id = 1, name = ''portfolio'', html_url = ''https://github.com/u/portfolio'',
       description = Some ''Computer Vision notebook'', stargazers_count = 0, forks_count = 0,
       language = None, homepage = None, topics = Some [''ml''],
       updated_at = ''2024-01-01T00:00:00Z'', archived = False, fork = False \<rparr>"

definition ok_response :: "GitHubRepo list \<Rightarrow> Response" where
  "ok_response body =
     \<lparr> ok = True, status = 200, x_ratelimit_remaining = None, x_ratelimit_reset = None,
       json = Inr body \<rparr>"

text \<open>A listing whose pages have the given sizes; there is no page after the last.\<close>

definition sized_pages :: "nat list \<Rightarrow> fetch_env" where
  "sized_pages sizes username page =
     (if 1 \<le> page \<and> page \<le> length sizes
      then Resolves (ok_response (replicate (sizes ! (page - 1)) example_repo))
      else Rejects (Error ''no such page''))"







text \<open>A Collection whose tag lists are \<open>ml, cv\<close> and \<open>ml\<close>.\<close>

definition example_collection :: "RepositoryWithTags list" where
  "example_collection =
     [ normalise (example_repo\<lparr>topics := Some [''ml'', ''cv'']\<rparr>),
       normalise (example_repo\<lparr>topics := Some [''ml'']\<rparr>) ]"



text \<open>A comparator to run the aggregator with: the order of the code units.\<close>

definition codeunit_compare :: "string \<Rightarrow> string \<Rightarrow> int" where
  "codeunit_compare a b = (if a < b then - 1 else if a = b then 0 else 1)"

section \<open>Properties of the library model\<close>

lemma toLowerCase_char_idem: "toLowerCase_char (toLowerCase_char c) = toLowerCase_char c"
  by (auto simp add: toLowerCase_char_def)

lemma toLowerCase_idem: "toLowerCase (toLowerCase s) = toLowerCase s"
  by (simp add: toLowerCase_def toLowerCase_char_idem)


lemma fold_Set_add_distinct:
  "distinct acc \<Longrightarrow> distinct (fold (\<lambda>x s. Set_add s x) xs acc)"
  by (induction xs arbitrary: acc) (auto simp: Set_add_def)

lemma fold_Set_add_set:
  "set (fold (\<lambda>x s. Set_add s x) xs acc) = set acc \<union> set xs"
  by (induction xs arbitrary: acc) (auto simp: Set_add_def)

lemma distinct_new_Set: "distinct (new_Set xs)"
  by (simp add: new_Set_def fold_Set_add_distinct)

lemma set_new_Set: "set (new_Set xs) = set xs"
  by (simp add: new_Set_def fold_Set_add_set)

lemma allTags_normalise:
  "allTags (normalise repo) =
     new_Set (map toLowerCase (case topics repo of None \<Rightarrow> [] | Some ts \<Rightarrow> ts))"
  by (simp add: normalise_def Let_def)

lemma allTags_lower: "t \<in> set (allTags (normalise repo)) \<Longrightarrow> toLowerCase t = t"
  by (auto simp: allTags_normalise set_new_Set toLowerCase_idem)

section \<open>Normaliser properties\<close>

text \<open>
  C7. For every raw record, \<open>docsUrl\<close> is the trimmed homepage when the homepage is a
  string that is non-empty after trimming, and otherwise the canonical URL followed by
  \<open>#readme\<close>; it is never the empty string (nor absent).
\<close>

theorem normalise_docsUrl:
  "docsUrl (normalise repo) =
     (case homepage repo of
        None \<Rightarrow> Some (html_url repo @ ''#readme'')
      | Some h \<Rightarrow> if trim h = [] then Some (html_url repo @ ''#readme'') else Some (trim h))
   \<and> docsUrl (normalise repo) \<noteq> Some [] \<and> docsUrl (normalise repo) \<noteq> None"
  by (simp add: normalise_def Let_def split: option.splits)

text \<open>
  C8. For every raw record, \<open>allTags\<close> holds exactly the lower-cased topics, every entry
  is its own lower-casing, and there are no duplicates, neither literally nor up to case;
  the topics \<open>CV\<close>, \<open>cv\<close> give the single tag \<open>cv\<close>.
\<close>

theorem normalise_allTags_distinct_lower:
  "distinct (allTags (normalise repo))
   \<and> map toLowerCase (allTags (normalise repo)) = allTags (normalise repo)
   \<and> distinct (map toLowerCase (allTags (normalise repo)))
   \<and> set (allTags (normalise repo)) =
       toLowerCase ` set (case topics repo of None \<Rightarrow> [] | Some ts \<Rightarrow> ts)
   \<and> allTags (normalise (repo\<lparr>topics := Some [''CV'', ''cv'']\<rparr>)) = [''cv'']"
proof -
  have d: "distinct (allTags (normalise repo))"
    by (simp add: allTags_normalise distinct_new_Set)
  have l: "map toLowerCase (allTags (normalise repo)) = allTags (normalise repo)"
    by (rule map_idI) (rule allTags_lower)
  have s: "set (allTags (normalise repo)) =
       toLowerCase ` set (case topics repo of None \<Rightarrow> [] | Some ts \<Rightarrow> ts)"
    by (simp add: allTags_normalise set_new_Set)
  have e: "allTags (normalise (repo\<lparr>topics := Some [''CV'', ''cv'']\<rparr>)) = [''cv'']"
    by (simp add: allTags_normalise new_Set_def Set_add_def toLowerCase_def
        toLowerCase_char_def)
  from d l s e show ?thesis by simp
qed

text \<open>
  C9. Normalisation is idempotent: feeding a normalised record back through the
  normaliser gives the same \<open>allTags\<close> and the same \<open>docsUrl\<close> (indeed the same record).
\<close>

theorem normalise_idempotent:
  "allTags (normalise (normalise repo)) = allTags (normalise repo)
   \<and> docsUrl (normalise (normalise repo)) = docsUrl (normalise repo)
   \<and> normalise (normalise repo) = normalise repo"
  by (simp add: normalise_def Let_def)

section \<open>Filter engine properties\<close>

text \<open>
  C10. The visible subset is an order-preserving subsequence of the Collection, and with
  no active tag and an empty search string it is the whole Collection.
\<close>

theorem filteredRepositories_subseq:
  "subseq (filteredRepositories collection activeTag searchTerm) collection
   \<and> filteredRepositories collection None '''' = collection"
  by (simp add: filteredRepositories_def repo_visible_def trim_def trimEnd_def
      trimStart_def)

section \<open>Pagination\<close>

lemma upt_step: "[page ..< Suc (Suc (page + n))] = page # [Suc page ..< Suc (Suc (page + n))]"
  by (rule upt_conv_Cons) simp

lemma fetch_loop_serves:
  "serves fetch u page (full @ [short]) \<Longrightarrow> list_all (\<lambda>p. PER_PAGE \<le> length p) full \<Longrightarrow>
   length short < PER_PAGE \<Longrightarrow>
   fetch_loop fetch u page aggregated requested =
     Some (Inr (aggregated @ concat (full @ [short])),
           requested @ [page ..< page + length full + 1])"
proof (induction full arbitrary: page aggregated requested)
  case Nil
  then show ?case by (subst fetch_loop.simps) simp
next
  case (Cons p ps)
  from Cons.prems have p: "fetchPage fetch u page = Inr p" "\<not> length p < PER_PAGE"
    and rest: "serves fetch u (page + 1) (ps @ [short])"
      "list_all (\<lambda>p. PER_PAGE \<le> length p) ps"
    by auto
  have "fetch_loop fetch u page aggregated requested =
        fetch_loop fetch u (page + 1) (aggregated @ p) (requested @ [page])"
    using p by (subst fetch_loop.simps) simp
  also have "\<dots> = Some (Inr ((aggregated @ p) @ concat (ps @ [short])),
           (requested @ [page]) @ [page + 1 ..< page + 1 + length ps + 1])"
    by (rule Cons.IH [OF rest Cons.prems(3)])
  finally have step: "fetch_loop fetch u page aggregated requested =
      Some (Inr ((aggregated @ p) @ concat (ps @ [short])),
           (requested @ [page]) @ [page + 1 ..< page + 1 + length ps + 1])" .
  with upt_step [of page "length ps"] show ?case by simp
qed


lemma fetch_loop_result:
  "fetch_loop fetch u page aggregated requested = Some y \<Longrightarrow>
   \<exists>full. serves fetch u page full \<and> list_all (\<lambda>p. PER_PAGE \<le> length p) full \<and>
     snd y = requested @ [page ..< page + length full + 1] \<and>
     (case fst y of
        Inl err \<Rightarrow> fetchPage fetch u (page + length full) = Inl err
      | Inr out \<Rightarrow>
          (\<exists>short. fetchPage fetch u (page + length full) = Inr short \<and>
             length short < PER_PAGE \<and> out = aggregated @ concat (full @ [short])))"
proof (induct rule: fetch_loop.raw_induct [rotated 1, consumes 1, case_names step])
  case (step loop fetch u page aggregated requested y)
  show ?case
  proof (cases "fetchPage fetch u page")
    case (Inl err)
    with step(2) have "y = (Inl err, requested @ [page])" by simp
    with Inl have "serves fetch u page [] \<and> list_all (\<lambda>p. PER_PAGE \<le> length p) [] \<and>
        snd y = requested @ [page ..< page + length ([] :: GitHubRepo list list) + 1] \<and>
        (case fst y of
           Inl err \<Rightarrow> fetchPage fetch u (page + length ([] :: GitHubRepo list list)) = Inl err
         | Inr out \<Rightarrow>
            (\<exists>short. fetchPage fetch u (page + length ([] :: GitHubRepo list list)) = Inr short \<and>
               length short < PER_PAGE \<and> out = aggregated @ concat ([] @ [short])))"
      by simp
    then show ?thesis by blast
  next
    case (Inr pageData)
    show ?thesis
    proof (cases "length pageData < PER_PAGE")
      case True
      with Inr step(2) have "y = (Inr (aggregated @ pageData), requested @ [page])" by simp
      with Inr True have "serves fetch u page [] \<and> list_all (\<lambda>p. PER_PAGE \<le> length p) [] \<and>
        snd y = requested @ [page ..< page + length ([] :: GitHubRepo list list) + 1] \<and>
        (case fst y of
           Inl err \<Rightarrow> fetchPage fetch u (page + length ([] :: GitHubRepo list list)) = Inl err
         | Inr out \<Rightarrow>
            (\<exists>short. fetchPage fetch u (page + length ([] :: GitHubRepo list list)) = Inr short \<and>
               length short < PER_PAGE \<and> out = aggregated @ concat ([] @ [short])))"
        by simp
      then show ?thesis by blast
    next
      case False
      with Inr step(2) have "loop fetch u (page + 1) (aggregated @ pageData) (requested @ [page]) = Some y"
        by simp
      from step(1) [OF this] obtain full where full: "serves fetch u (page + 1) full"
        "list_all (\<lambda>p. PER_PAGE \<le> length p) full"
        "snd y = (requested @ [page]) @ [page + 1 ..< page + 1 + length full + 1]"
        "case fst y of
           Inl err \<Rightarrow> fetchPage fetch u (page + 1 + length full) = Inl err
         | Inr out \<Rightarrow>
            (\<exists>short. fetchPage fetch u (page + 1 + length full) = Inr short \<and>
               length short < PER_PAGE \<and> out = (aggregated @ pageData) @ concat (full @ [short]))"
        by blast
      have a: "serves fetch u page (pageData # full)" using Inr full(1) by simp
      have b: "list_all (\<lambda>p. PER_PAGE \<le> length p) (pageData # full)"
        using False full(2) by simp
      have c: "snd y = requested @ [page ..< page + length (pageData # full) + 1]"
        using full(3) upt_step [of page "length full"] by simp
      have d: "case fst y of
           Inl err \<Rightarrow> fetchPage fetch u (page + length (pageData # full)) = Inl err
         | Inr out \<Rightarrow>
            (\<exists>short. fetchPage fetch u (page + length (pageData # full)) = Inr short \<and>
               length short < PER_PAGE \<and> out = aggregated @ concat ((pageData # full) @ [short]))"
        using full(4) by (simp split: sum.splits)
      from a b c d show ?thesis by blast
    qed
  qed
qed

lemma serves_append:
  "serves fetch u page (xs @ ys) \<longleftrightarrow>
     serves fetch u page xs \<and> serves fetch u (page + length xs) ys"
  by (induction xs arbitrary: page) auto

text \<open>
  C1. The fetch returns data exactly when the listing consists of full pages (at least
  \<open>PER_PAGE\<close> records each) followed by a short page; it has then requested pages
  1, 2, ... in order, stopped with the short page, and aggregated the concatenation of
  the pages requested. In particular it returns whenever such a short page exists.
\<close>

theorem fetch_all_paginates:
  "fetch_all fetch username = Some (Inr out, requested) \<longleftrightarrow>
     (\<exists>full short.
        serves fetch username 1 (full @ [short]) \<and>
        list_all (\<lambda>p. PER_PAGE \<le> length p) full \<and> length short < PER_PAGE \<and>
        out = concat (full @ [short]) \<and> requested = [1 ..< length full + 2])"
proof
  assume "fetch_all fetch username = Some (Inr out, requested)"
  then have "fetch_loop fetch username 1 [] [] = Some (Inr out, requested)"
    by (simp add: fetch_all_def)
  from fetch_loop_result [OF this] obtain full short where
    "serves fetch username 1 full" "list_all (\<lambda>p. PER_PAGE \<le> length p) full"
    "requested = [1 ..< 1 + length full + 1]"
    "fetchPage fetch username (1 + length full) = Inr short" "length short < PER_PAGE"
    "out = concat (full @ [short])"
    by auto
  then have "serves fetch username 1 (full @ [short]) \<and>
        list_all (\<lambda>p. PER_PAGE \<le> length p) full \<and> length short < PER_PAGE \<and>
        out = concat (full @ [short]) \<and> requested = [1 ..< length full + 2]"
    by (simp add: serves_append)
  then show "\<exists>full short.
        serves fetch username 1 (full @ [short]) \<and>
        list_all (\<lambda>p. PER_PAGE \<le> length p) full \<and> length short < PER_PAGE \<and>
        out = concat (full @ [short]) \<and> requested = [1 ..< length full + 2]"
    by blast
next
  assume "\<exists>full short.
        serves fetch username 1 (full @ [short]) \<and>
        list_all (\<lambda>p. PER_PAGE \<le> length p) full \<and> length short < PER_PAGE \<and>
        out = concat (full @ [short]) \<and> requested = [1 ..< length full + 2]"
  then obtain full short where s: "serves fetch username 1 (full @ [short])"
    "list_all (\<lambda>p. PER_PAGE \<le> length p) full" "length short < PER_PAGE"
    and o: "out = concat (full @ [short])" "requested = [1 ..< length full + 2]"
    by blast
  from fetch_loop_serves [OF s, of "[]" "[]"] o
  show "fetch_all fetch username = Some (Inr out, requested)"
    by (simp add: fetch_all_def)
qed

theorem fetch_all_paginates_witness:
  "serves (sized_pages [100, 100, 37]) ''GeorgePearse'' 1
     ([replicate 100 example_repo, replicate 100 example_repo] @ [replicate 37 example_repo])
   \<and> list_all (\<lambda>p. PER_PAGE \<le> length p) [replicate 100 example_repo, replicate 100 example_repo]
   \<and> length (replicate 37 example_repo) < PER_PAGE
   \<and> fetch_all (sized_pages [100, 100, 37]) ''GeorgePearse'' =
       Some (Inr (concat [replicate 100 example_repo, replicate 100 example_repo,
                          replicate 37 example_repo]), [1, 2, 3])
   \<and> length (concat [replicate 100 example_repo, replicate 100 example_repo,
                      replicate 37 example_repo]) = 237
   \<and> serves (sized_pages [0]) ''GeorgePearse'' 1 ([] @ [[]])
   \<and> fetch_all (sized_pages [0]) ''GeorgePearse'' = Some (Inr [], [1])"
proof -
  let ?full = "[replicate 100 example_repo, replicate 100 example_repo]"
  let ?short = "replicate 37 example_repo"
  have a: "serves (sized_pages [100, 100, 37]) ''GeorgePearse'' 1 (?full @ [?short])"
    by (simp add: sized_pages_def fetchPage_def ok_response_def)
  have b: "list_all (\<lambda>p. PER_PAGE \<le> length p) ?full"
    by (simp add: PER_PAGE_def)
  have c: "length ?short < PER_PAGE"
    by (simp add: PER_PAGE_def)
  have three: "[1, 2, 3] = [1 ..< length ?full + 2]"
    by (simp add: upt_rec)
  have "\<exists>full short.
        serves (sized_pages [100, 100, 37]) ''GeorgePearse'' 1 (full @ [short]) \<and>
        list_all (\<lambda>p. PER_PAGE \<le> length p) full \<and> length short < PER_PAGE \<and>
        concat [replicate 100 example_repo, replicate 100 example_repo, replicate 37 example_repo]
          = concat (full @ [short]) \<and>
        [1, 2, 3] = [1 ..< length full + 2]"
    using a b c three by (intro exI [of _ ?full] exI [of _ ?short]) simp
  then have r1: "fetch_all (sized_pages [100, 100, 37]) ''GeorgePearse'' =
       Some (Inr (concat [replicate 100 example_repo, replicate 100 example_repo,
                          replicate 37 example_repo]), [1, 2, 3])"
    by (simp only: fetch_all_paginates)
  have d: "serves (sized_pages [0]) ''GeorgePearse'' 1 ([] @ [[]])"
    by (simp add: sized_pages_def fetchPage_def ok_response_def)
  have "\<exists>full short.
        serves (sized_pages [0]) ''GeorgePearse'' 1 (full @ [short]) \<and>
        list_all (\<lambda>p. PER_PAGE \<le> length p) full \<and> length short < PER_PAGE \<and>
        [] = concat (full @ [short]) \<and> [1] = [1 ..< length full + 2]"
    using d by (intro exI [of _ "[]"] exI [of _ "[]"]) (simp add: PER_PAGE_def upt_rec)
  then have r2: "fetch_all (sized_pages [0]) ''GeorgePearse'' = Some (Inr [], [1])"
    by (simp only: fetch_all_paginates)
  from a b c d r1 r2 show ?thesis by simp
qed

section \<open>Failure of a page\<close>












section \<open>Cancellation\<close>

text \<open>
  C4. Once the cancellation flag is set, whatever the loop ended with, data or a thrown
  value, the rest of the cycle leaves the three state variables as they are; every thrown
  value ends in the \<open>catch\<close> block, so none leaves the cycle.
\<close>

theorem cancelled_cycle_is_silent:
  "load_settle getTime includeForks includeArchived True outcome st = st
   \<and> loadRepositories fetch getTime username includeForks includeArchived True st =
       map_option (\<lambda>(outcome, requested). (load_begin st, requested))
         (fetch_all fetch username)"
  by (simp add: loadRepositories_def load_settle_def finally_block_def try_rest_def
      catch_block_def split: sum.splits option.splits)


section \<open>The stored Collection\<close>

lemma updated_at_normalise [simp]: "updated_at (normalise r) = updated_at r"
  by (simp add: normalise_def Let_def)






section \<open>Sorting with any comparator\<close>

lemma set_sort_insert: "set (sort_insert c x ys) = insert x (set ys)"
  by (induction ys) auto

lemma set_Array_sort: "set (Array_sort c xs) = set xs"
  by (induction xs) (auto simp: Array_sort_def set_sort_insert)

lemma distinct_map_sort_insert:
  "distinct (map f (sort_insert c x ys)) \<longleftrightarrow> f x \<notin> f ` set ys \<and> distinct (map f ys)"
  by (induction ys) (auto simp: set_sort_insert)

lemma distinct_map_Array_sort: "distinct (map f (Array_sort c xs)) \<longleftrightarrow> distinct (map f xs)"
proof (induction xs)
  case Nil
  then show ?case by (simp add: Array_sort_def)
next
  case (Cons x xs)
  have "Array_sort c (x # xs) = sort_insert c x (Array_sort c xs)"
    by (simp add: Array_sort_def)
  then show ?case
    using Cons.IH by (simp add: distinct_map_sort_insert set_Array_sort)
qed

lemma sorted_sort_insert:
  assumes trans: "\<And>a b d. SortCompare c a b \<le> 0 \<Longrightarrow> SortCompare c b d \<le> 0 \<Longrightarrow>
                    SortCompare c a d \<le> 0"
    and total: "\<And>a b. SortCompare c a b \<le> 0 \<or> SortCompare c b a \<le> 0"
    and "sorted_wrt (\<lambda>a b. SortCompare c a b \<le> 0) ys"
  shows "sorted_wrt (\<lambda>a b. SortCompare c a b \<le> 0) (sort_insert c x ys)"
  using assms(3)
proof (induction ys)
  case Nil
  then show ?case by simp
next
  case (Cons y ys)
  show ?case
  proof (cases "SortCompare c x y \<le> 0")
    case True
    with Cons.prems trans show ?thesis by auto
  next
    case False
    with total have "SortCompare c y x \<le> 0" by blast
    with False Cons show ?thesis by (auto simp: set_sort_insert)
  qed
qed

lemma sorted_Array_sort:
  assumes trans: "\<And>a b d. SortCompare c a b \<le> 0 \<Longrightarrow> SortCompare c b d \<le> 0 \<Longrightarrow>
                    SortCompare c a d \<le> 0"
    and total: "\<And>a b. SortCompare c a b \<le> 0 \<or> SortCompare c b a \<le> 0"
  shows "sorted_wrt (\<lambda>a b. SortCompare c a b \<le> 0) (Array_sort c xs)"
proof (induction xs)
  case Nil
  then show ?case by (simp add: Array_sort_def)
next
  case (Cons x xs)
  have "Array_sort c (x # xs) = sort_insert c x (Array_sort c xs)"
    by (simp add: Array_sort_def)
  with Cons.IH sorted_sort_insert [of c, OF trans total] show ?case by simp
qed

section \<open>Tag aggregation\<close>

lemma map_of_Map_set: "map_of (Map_set m k v) = (map_of m)(k \<mapsto> v)"
  by (induction m k v rule: Map_set.induct) auto

lemma keys_Map_set: "fst ` set (Map_set m k v) = insert k (fst ` set m)"
  by (induction m k v rule: Map_set.induct) auto

lemma distinct_Map_set: "distinct (map fst m) \<Longrightarrow> distinct (map fst (Map_set m k v))"
  by (induction m k v rule: Map_set.induct) (auto simp: keys_Map_set)

lemma count_of_count_tag:
  "count_of (count_tag m tag) l = count_of m l + (if toLowerCase tag = l then 1 else 0)"
  by (simp add: count_of_def count_tag_def Map_get_def map_of_Map_set Let_def)

lemma keys_count_tag: "fst ` set (count_tag m tag) = insert (toLowerCase tag) (fst ` set m)"
  by (simp add: count_tag_def Let_def keys_Map_set)

lemma distinct_count_tag: "distinct (map fst m) \<Longrightarrow> distinct (map fst (count_tag m tag))"
  by (simp add: count_tag_def Let_def distinct_Map_set)

lemma count_of_fold_tags:
  "count_of (fold (\<lambda>tag c. count_tag c tag) ts m) l =
     count_of m l + count_list (map toLowerCase ts) l"
  by (induction ts arbitrary: m) (auto simp: count_of_count_tag)

lemma keys_fold_tags:
  "fst ` set (fold (\<lambda>tag c. count_tag c tag) ts m) = fst ` set m \<union> toLowerCase ` set ts"
  by (induction ts arbitrary: m) (auto simp: keys_count_tag)

lemma distinct_fold_tags:
  "distinct (map fst m) \<Longrightarrow> distinct (map fst (fold (\<lambda>tag c. count_tag c tag) ts m))"
  by (induction ts arbitrary: m) (auto simp: distinct_count_tag)

lemma count_list_distinct:
  "distinct xs \<Longrightarrow> count_list xs x = (if x \<in> set xs then 1 else 0)"
  by (induction xs) auto

lemma count_of_fold_repos:
  assumes "\<forall>r\<in>set coll. distinct (allTags r) \<and> map toLowerCase (allTags r) = allTags r"
  shows "count_of (fold (\<lambda>repo counts. fold (\<lambda>tag c. count_tag c tag) (allTags repo) counts)
                     coll m) l =
     count_of m l + length (filter (\<lambda>r. l \<in> set (allTags r)) coll)"
  using assms
proof (induction coll arbitrary: m)
  case Nil
  then show ?case by simp
next
  case (Cons r rs)
  then have d: "distinct (allTags r)" and lc: "map toLowerCase (allTags r) = allTags r"
    by auto
  have "count_list (allTags r) l = (if l \<in> set (allTags r) then 1 else 0)"
    using d by (rule count_list_distinct)
  with Cons lc show ?case
    by (simp add: count_of_fold_tags)
qed

lemma keys_fold_repos:
  "fst ` set (fold (\<lambda>repo counts. fold (\<lambda>tag c. count_tag c tag) (allTags repo) counts)
               coll m) =
     fst ` set m \<union> (\<Union>r\<in>set coll. toLowerCase ` set (allTags r))"
  by (induction coll arbitrary: m) (auto simp: keys_fold_tags)

lemma distinct_fold_repos:
  "distinct (map fst m) \<Longrightarrow>
   distinct (map fst (fold (\<lambda>repo counts. fold (\<lambda>tag c. count_tag c tag) (allTags repo) counts)
                        coll m))"
  by (induction coll arbitrary: m) (auto simp: distinct_fold_tags)

lemma label_entries: "map label (map (\<lambda>(l, c). \<lparr>label = l, count = c\<rparr>) m) = map fst m"
  by (induction m) auto

lemma codeunit_compare_le: "codeunit_compare a b \<le> 0 \<longleftrightarrow> a \<le> b"
  by (auto simp: codeunit_compare_def)

lemma codeunit_compare_total: "codeunit_compare a b \<le> 0 \<or> codeunit_compare b a \<le> 0"
  unfolding codeunit_compare_le by (rule linear)

lemma codeunit_compare_trans:
  "codeunit_compare a b \<le> 0 \<Longrightarrow> codeunit_compare b c \<le> 0 \<Longrightarrow> codeunit_compare a c \<le> 0"
  unfolding codeunit_compare_le by (rule order_trans)

text \<open>
  C6. For a Collection of normalised records (tag lists without duplicates, in lower
  case) and a \<open>localeCompare\<close> that is a consistent comparator (transitive and total),
  the aggregator gives one entry for each tag that occurs in some record, the entry's
  count is the number of records carrying the tag, and the entries are sorted by label
  with respect to \<open>localeCompare\<close>.
\<close>

theorem tags_counts_sorted:
  assumes trans: "\<And>a b c. localeCompare a b \<le> 0 \<Longrightarrow> localeCompare b c \<le> 0 \<Longrightarrow>
                    localeCompare a c \<le> 0"
    and total: "\<And>a b. localeCompare a b \<le> 0 \<or> localeCompare b a \<le> 0"
    and norm: "\<forall>r\<in>set collection.
                 distinct (allTags r) \<and> map toLowerCase (allTags r) = allTags r"
  shows "distinct (map label (tags localeCompare collection))
       \<and> set (map label (tags localeCompare collection)) =
           (\<Union>r\<in>set collection. set (allTags r))
       \<and> (\<forall>m\<in>set (tags localeCompare collection).
            count m = length (filter (\<lambda>r. label m \<in> set (allTags r)) collection))
       \<and> sorted_wrt (\<lambda>a b. localeCompare (label a) (label b) \<le> 0)
           (tags localeCompare collection)"
proof -
  let ?c = "\<lambda>a b. Some (localeCompare (label a) (label b))"
  let ?es = "map (\<lambda>(l, c). \<lparr>label = l, count = c\<rparr>) (tag_counts collection)"
  have dk: "distinct (map fst (tag_counts collection))"
    unfolding tag_counts_def by (rule distinct_fold_repos) simp
  have d: "distinct (map label (tags localeCompare collection))"
    using dk by (simp only: tags_def distinct_map_Array_sort label_entries)
  have "\<And>r. r \<in> set collection \<Longrightarrow> toLowerCase ` set (allTags r) = set (allTags r)"
  proof -
    fix r assume "r \<in> set collection"
    with norm have "map toLowerCase (allTags r) = allTags r" by blast
    then have "set (map toLowerCase (allTags r)) = set (allTags r)" by simp
    then show "toLowerCase ` set (allTags r) = set (allTags r)" by simp
  qed
  then have keys: "fst ` set (tag_counts collection) = (\<Union>r\<in>set collection. set (allTags r))"
    by (simp add: tag_counts_def keys_fold_repos)
  have "set (map label (tags localeCompare collection)) = label ` set ?es"
    by (simp add: tags_def set_Array_sort)
  also have "\<dots> = set (map label ?es)" by (simp only: set_map)
  also have "\<dots> = fst ` set (tag_counts collection)" by (simp only: label_entries set_map)
  finally have s: "set (map label (tags localeCompare collection)) =
      (\<Union>r\<in>set collection. set (allTags r))"
    using keys by simp
  have c: "\<forall>m\<in>set (tags localeCompare collection).
            count m = length (filter (\<lambda>r. label m \<in> set (allTags r)) collection)"
  proof
    fix m assume "m \<in> set (tags localeCompare collection)"
    then have "m \<in> set ?es" by (simp add: tags_def set_Array_sort)
    then obtain l n where ln: "(l, n) \<in> set (tag_counts collection)"
      and m: "m = \<lparr>label = l, count = n\<rparr>"
      by auto
    from dk ln have "map_of (tag_counts collection) l = Some n" by simp
    then have "count_of (tag_counts collection) l = n"
      by (simp add: count_of_def Map_get_def)
    moreover have "count_of (tag_counts collection) l =
        count_of [] l + length (filter (\<lambda>r. l \<in> set (allTags r)) collection)"
      unfolding tag_counts_def by (rule count_of_fold_repos [OF norm])
    ultimately show "count m = length (filter (\<lambda>r. label m \<in> set (allTags r)) collection)"
      using m by (simp add: count_of_def Map_get_def)
  qed
  have "sorted_wrt (\<lambda>a b. SortCompare ?c a b \<le> 0) (Array_sort ?c ?es)"
  proof (rule sorted_Array_sort)
    show "\<And>a b d. SortCompare ?c a b \<le> 0 \<Longrightarrow> SortCompare ?c b d \<le> 0 \<Longrightarrow>
            SortCompare ?c a d \<le> 0"
      using trans by (simp add: SortCompare_def)
    show "\<And>a b. SortCompare ?c a b \<le> 0 \<or> SortCompare ?c b a \<le> 0"
      using total by (simp add: SortCompare_def)
  qed
  then have so: "sorted_wrt (\<lambda>a b. localeCompare (label a) (label b) \<le> 0)
                   (tags localeCompare collection)"
    by (simp add: tags_def SortCompare_def)
  from d s c so show ?thesis by blast
qed

theorem tags_counts_sorted_witness:
  "list_all (\<lambda>r. distinct (allTags r) \<and> map toLowerCase (allTags r) = allTags r)
     example_collection
   \<and> map allTags example_collection = [[''ml'', ''cv''], [''ml'']]
   \<and> tags codeunit_compare example_collection =
       [\<lparr>label = ''cv'', count = 1\<rparr>, \<lparr>label = ''ml'', count = 2\<rparr>]
   \<and> distinct (map label (tags codeunit_compare example_collection))
   \<and> set (map label (tags codeunit_compare example_collection)) =
       (\<Union>r\<in>set example_collection. set (allTags r))
   \<and> sorted_wrt (\<lambda>a b. codeunit_compare (label a) (label b) \<le> 0)
       (tags codeunit_compare example_collection)"
proof -
  have t: "map allTags example_collection = [[''ml'', ''cv''], [''ml'']]"
    by (simp add: example_collection_def allTags_normalise new_Set_def Set_add_def
        toLowerCase_def toLowerCase_char_def)
  have h: "\<forall>r\<in>set example_collection.
      distinct (allTags r) \<and> map toLowerCase (allTags r) = allTags r"
    by (simp add: example_collection_def allTags_normalise distinct_new_Set new_Set_def
        Set_add_def toLowerCase_def toLowerCase_char_def)
  then have l: "list_all (\<lambda>r. distinct (allTags r) \<and> map toLowerCase (allTags r) = allTags r)
     example_collection"
    by (simp add: list_all_iff)
  have v: "tags codeunit_compare example_collection =
       [\<lparr>label = ''cv'', count = 1\<rparr>, \<lparr>label = ''ml'', count = 2\<rparr>]"
    by (simp add: tags_def tag_counts_def count_tag_def Map_get_def Array_sort_def
        SortCompare_def codeunit_compare_def example_collection_def allTags_normalise
        new_Set_def Set_add_def toLowerCase_def toLowerCase_char_def)
  have inst: "distinct (map label (tags codeunit_compare example_collection))
       \<and> set (map label (tags codeunit_compare example_collection)) =
           (\<Union>r\<in>set example_collection. set (allTags r))
       \<and> (\<forall>m\<in>set (tags codeunit_compare example_collection).
            count m = length (filter (\<lambda>r. label m \<in> set (allTags r)) example_collection))
       \<and> sorted_wrt (\<lambda>a b. codeunit_compare (label a) (label b) \<le> 0)
           (tags codeunit_compare example_collection)"
  proof (rule tags_counts_sorted)
    show "\<And>a b c. codeunit_compare a b \<le> 0 \<Longrightarrow> codeunit_compare b c \<le> 0 \<Longrightarrow>
            codeunit_compare a c \<le> 0"
      by (rule codeunit_compare_trans)
    show "\<And>a b. codeunit_compare a b \<le> 0 \<or> codeunit_compare b a \<le> 0"
      by (rule codeunit_compare_total)
    show "\<forall>r\<in>set example_collection.
      distinct (allTags r) \<and> map toLowerCase (allTags r) = allTags r"
      by (rule h)
  qed
  from inst l t v show ?thesis by blast
qed

section \<open>The filter predicate\<close>





lemma name_normalise [simp]: "name (normalise raw) = name raw"
  by (simp add: normalise_def Let_def)

lemma description_normalise [simp]: "description (normalise raw) = description raw"
  by (simp add: normalise_def Let_def)





end
